theory Spec2Isabelle
  imports Main
begin

section \<open>Python strings\<close>

text \<open>
  A Python \<open>str\<close> is modelled as a \<open>string\<close> whose characters are ASCII code points.
  The string methods used by \<open>papertrail.py\<close> are given with Python's behaviour on
  that range: \<open>str.isspace\<close> holds for the code points 9 to 13, 28 to 31 and 32,
  \<open>str.upper\<close> maps \<open>a\<close>..\<open>z\<close> to \<open>A\<close>..\<open>Z\<close>, and the regular-expression classes
  \<open>\d\<close>, \<open>\w\<close> and \<open>\s\<close> are the ASCII digits, the ASCII letters, digits and
  underscore, and the same white space as \<open>isspace\<close>.
\<close>

datatype py_error = IndexError | KeyError

definition is_space :: "char \<Rightarrow> bool" where
  "is_space c = (let n = (of_char c :: nat) in (9 \<le> n \<and> n \<le> 13) \<or> (28 \<le> n \<and> n \<le> 32))"

definition is_digit :: "char \<Rightarrow> bool" where
  "is_digit c = (let n = (of_char c :: nat) in 48 \<le> n \<and> n \<le> 57)"

definition is_word :: "char \<Rightarrow> bool" where
  "is_word c = (let n = (of_char c :: nat) in
     (48 \<le> n \<and> n \<le> 57) \<or> (65 \<le> n \<and> n \<le> 90) \<or> (97 \<le> n \<and> n \<le> 122) \<or> n = 95)"

definition upper :: "char \<Rightarrow> char" where
  "upper c = (let n = (of_char c :: nat) in if 97 \<le> n \<and> n \<le> 122 then char_of (n - 32) else c)"

text \<open>\<open>s.strip()\<close> and \<open>s.rstrip('.')\<close>.\<close>

definition strip :: "string \<Rightarrow> string" where
  "strip s = rev (dropWhile is_space (rev (dropWhile is_space s)))"

definition rstrip_dot :: "string \<Rightarrow> string" where
  "rstrip_dot s = rev (dropWhile (\<lambda>c. c = CHR ''.'') (rev s))"

text \<open>\<open>s.split(sep)\<close> for a one-character separator: empty pieces are kept, and the
  result always has at least one element.\<close>

fun split_on :: "char \<Rightarrow> string \<Rightarrow> string list" where
  "split_on sep [] = [[]]"
| "split_on sep (c # cs) =
     (if c = sep then [] # split_on sep cs
      else (case split_on sep cs of [] \<Rightarrow> [[c]] | w # ws \<Rightarrow> (c # w) # ws))"

text \<open>\<open>s.split()\<close>: the maximal runs of characters that are not white space.\<close>

fun split_ws :: "string \<Rightarrow> string list" where
  "split_ws [] = []"
| "split_ws (c # cs) =
     (if is_space c then split_ws cs
      else if cs = [] \<or> is_space (hd cs) then [c] # split_ws cs
      else (case split_ws cs of [] \<Rightarrow> [[c]] | w # ws \<Rightarrow> (c # w) # ws))"

text \<open>\<open>sep.join(xs)\<close>.\<close>

fun join :: "string \<Rightarrow> string list \<Rightarrow> string" where
  "join sep [] = []"
| "join sep [x] = x"
| "join sep (x # y # ys) = x @ sep @ join sep (y # ys)"

text \<open>\<open>str(n)\<close> for an integer: decimal digits, with a minus sign below zero.\<close>

fun digits :: "nat \<Rightarrow> string" where
  "digits n = (if n < 10 then [char_of (48 + n)]
               else digits (n div 10) @ [char_of (48 + n mod 10)])"

declare digits.simps [simp del]

definition str_int :: "int \<Rightarrow> string" where
  "str_int i = (if i < 0 then CHR ''-'' # digits (nat (- i)) else digits (nat i))"

text \<open>\<open>xs[0]\<close> and \<open>xs[-1]\<close> raise \<open>IndexError\<close> on an empty sequence.\<close>

fun py_first :: "'a list \<Rightarrow> py_error + 'a" where
  "py_first [] = Inl IndexError"
| "py_first (x # _) = Inr x"

fun py_last :: "'a list \<Rightarrow> py_error + 'a" where
  "py_last [] = Inl IndexError"
| "py_last (x # xs) = Inr (last (x # xs))"

text \<open>A list comprehension or loop body that may raise: the first error ends it.\<close>

fun map_err :: "('a \<Rightarrow> py_error + 'b) \<Rightarrow> 'a list \<Rightarrow> py_error + 'b list" where
  "map_err f [] = Inr []"
| "map_err f (x # xs) =
     (case f x of Inl e \<Rightarrow> Inl e
      | Inr y \<Rightarrow> (case map_err f xs of Inl e \<Rightarrow> Inl e | Inr ys \<Rightarrow> Inr (y # ys)))"

section \<open>Citation records\<close>

text \<open>
  A citation is a Python dict from field names to strings. \<open>citation.get(k)\<close> is falsy
  when the key is missing, when its value is \<open>None\<close> and when it is the empty string; all
  three read as the empty string here.
\<close>

type_synonym citation = "string \<rightharpoonup> string"

definition get_str :: "citation \<Rightarrow> string \<Rightarrow> string" where
  "get_str c k = (case c k of None \<Rightarrow> [] | Some v \<Rightarrow> v)"

section \<open>Vancouver\<close>

text \<open>\<open>n[0].upper()\<close>\<close>

definition first_upper :: "string \<Rightarrow> py_error + string" where
  "first_upper n = (case py_first n of Inl e \<Rightarrow> Inl e | Inr ch \<Rightarrow> Inr [upper ch])"

definition vancouver_author :: "string \<Rightarrow> py_error + string" where
  "vancouver_author a =
     (let author = strip a; name_parts = split_ws author in
      if length name_parts \<ge> 2 then
        (case map_err first_upper (butlast name_parts) of
           Inl e \<Rightarrow> Inl e
         | Inr initials \<Rightarrow> Inr (last name_parts @ '' '' @ concat initials))
      else Inr author)"

definition vancouver_authors :: "citation \<Rightarrow> py_error + string list" where
  "vancouver_authors c =
     (if get_str c ''authors'' \<noteq> [] then
        (let authors = split_on CHR '','' (get_str c ''authors'') in
         case map_err vancouver_author (take 6 authors) of
           Inl e \<Rightarrow> Inl e
         | Inr formatted_authors \<Rightarrow>
             if length authors > 6 then Inr [join '', '' formatted_authors @ '', et al.'']
             else Inr [join '', '' formatted_authors @ ''.''])
      else Inr [])"

definition vancouver_title :: "citation \<Rightarrow> string list" where
  "vancouver_title c = (if get_str c ''title'' \<noteq> [] then [get_str c ''title'' @ ''.''] else [])"

definition vancouver_journal :: "citation \<Rightarrow> string list" where
  "vancouver_journal c =
     (if get_str c ''journal'' \<noteq> [] then
        [get_str c ''journal''
         @ (if get_str c ''year'' \<noteq> [] then '' '' @ get_str c ''year'' else [])
         @ (if get_str c ''volume'' \<noteq> [] then '';'' @ get_str c ''volume'' else [])
         @ (if get_str c ''issue'' \<noteq> [] then ''('' @ get_str c ''issue'' @ '')'' else [])
         @ (if get_str c ''pages'' \<noteq> [] then '':'' @ get_str c ''pages'' else [])
         @ ''.'']
      else if get_str c ''year'' \<noteq> [] then [get_str c ''year'' @ ''.'']
      else [])"

definition vancouver_identifier :: "citation \<Rightarrow> string list" where
  "vancouver_identifier c =
     (if get_str c ''doi'' \<noteq> [] then [''doi:'' @ get_str c ''doi'']
      else if get_str c ''url'' \<noteq> [] then [''Available from: '' @ get_str c ''url'']
      else [])"

definition vancouver_format_citation :: "citation \<Rightarrow> int \<Rightarrow> py_error + string" where
  "vancouver_format_citation c index =
     (case vancouver_authors c of
        Inl e \<Rightarrow> Inl e
      | Inr author_part \<Rightarrow>
          Inr (str_int index @ ''. ''
               @ join '' '' (author_part @ vancouver_title c @ vancouver_journal c
                             @ vancouver_identifier c)))"

section \<open>APA\<close>

text \<open>\<open>'. '.join([n[0].upper() for n in name_parts[:-1]]) + '.'\<close>\<close>

definition apa_author :: "string \<Rightarrow> py_error + string" where
  "apa_author a =
     (let author = strip a; name_parts = split_ws author in
      if length name_parts \<ge> 2 then
        (case map_err first_upper (butlast name_parts) of
           Inl e \<Rightarrow> Inl e
         | Inr initials \<Rightarrow> Inr (last name_parts @ '', '' @ join ''. '' initials @ ''.''))
      else Inr author)"

definition apa_authors :: "citation \<Rightarrow> py_error + string list" where
  "apa_authors c =
     (if get_str c ''authors'' \<noteq> [] then
        (let authors = split_on CHR '','' (get_str c ''authors'') in
         case map_err apa_author (take 20 authors) of
           Inl e \<Rightarrow> Inl e
         | Inr formatted_authors \<Rightarrow>
             if length authors > 20 then
               (case py_last formatted_authors of
                  Inl e \<Rightarrow> Inl e
                | Inr l \<Rightarrow> Inr [join '', '' (take 19 formatted_authors) @ '', ... '' @ l])
             else if length formatted_authors > 1 then
               (case py_last formatted_authors of
                  Inl e \<Rightarrow> Inl e
                | Inr l \<Rightarrow> Inr [join '', '' (butlast formatted_authors) @ '', & '' @ l])
             else
               (case py_first formatted_authors of
                  Inl e \<Rightarrow> Inl e
                | Inr f \<Rightarrow> Inr [f]))
      else Inr [])"

definition apa_year :: "citation \<Rightarrow> string list" where
  "apa_year c = (if get_str c ''year'' \<noteq> [] then [''('' @ get_str c ''year'' @ '').''] else [])"

definition apa_title :: "citation \<Rightarrow> string list" where
  "apa_title c = (if get_str c ''title'' \<noteq> [] then [get_str c ''title'' @ ''.''] else [])"

definition apa_journal :: "citation \<Rightarrow> string list" where
  "apa_journal c =
     (if get_str c ''journal'' \<noteq> [] then
        [get_str c ''journal''
         @ (if get_str c ''volume'' \<noteq> [] then '', '' @ get_str c ''volume'' else [])
         @ (if get_str c ''issue'' \<noteq> [] then ''('' @ get_str c ''issue'' @ '')'' else [])
         @ (if get_str c ''pages'' \<noteq> [] then '', '' @ get_str c ''pages'' else [])
         @ ''.'']
      else [])"

definition apa_identifier :: "citation \<Rightarrow> string list" where
  "apa_identifier c =
     (if get_str c ''doi'' \<noteq> [] then [''https://doi.org/'' @ get_str c ''doi'']
      else if get_str c ''url'' \<noteq> [] then [get_str c ''url'']
      else [])"

definition apa_format_citation :: "citation \<Rightarrow> int \<Rightarrow> py_error + string" where
  "apa_format_citation c index =
     (case apa_authors c of
        Inl e \<Rightarrow> Inl e
      | Inr author_part \<Rightarrow>
          Inr (join '' '' (author_part @ apa_year c @ apa_title c @ apa_journal c
                           @ apa_identifier c)))"

section \<open>MLA\<close>

text \<open>
  Only \<open>authors[0]\<close> is read, under the guard \<open>len(authors) > 0\<close>; the segment appended
  for it is then rewritten in place when there are more authors.
\<close>

definition mla_first_author :: "string \<Rightarrow> string" where
  "mla_first_author a =
     (let first_author = strip a; name_parts = split_ws first_author in
      if length name_parts \<ge> 2 then
        last name_parts @ '', '' @ join '' '' (butlast name_parts) @ ''.''
      else first_author @ ''.'')"

definition mla_authors :: "citation \<Rightarrow> string list" where
  "mla_authors c =
     (if get_str c ''authors'' \<noteq> [] then
        (let authors = split_on CHR '','' (get_str c ''authors'') in
         case authors of
           [] \<Rightarrow> []
         | a0 # _ \<Rightarrow>
             (let part = mla_first_author a0 in
              if length authors > 1 then [rstrip_dot part @ '', et al.''] else [part]))
      else [])"

definition mla_title :: "citation \<Rightarrow> string list" where
  "mla_title c =
     (if get_str c ''title'' \<noteq> [] then [''\"'' @ get_str c ''title'' @ ''.\"'']
      else [])"

definition mla_journal :: "citation \<Rightarrow> string list" where
  "mla_journal c =
     (if get_str c ''journal'' \<noteq> [] then
        [get_str c ''journal''
         @ (if get_str c ''volume'' \<noteq> [] then '', vol. '' @ get_str c ''volume'' else [])
         @ (if get_str c ''issue'' \<noteq> [] then '', no. '' @ get_str c ''issue'' else [])
         @ (if get_str c ''year'' \<noteq> [] then '', '' @ get_str c ''year'' else [])
         @ (if get_str c ''pages'' \<noteq> [] then '', pp. '' @ get_str c ''pages'' else [])
         @ ''.'']
      else if get_str c ''year'' \<noteq> [] then [get_str c ''year'' @ ''.'']
      else [])"

definition mla_identifier :: "citation \<Rightarrow> string list" where
  "mla_identifier c =
     (if get_str c ''doi'' \<noteq> [] then [''doi:'' @ get_str c ''doi'' @ ''.'']
      else if get_str c ''url'' \<noteq> [] then [get_str c ''url'' @ ''.'']
      else [])"

definition mla_format_citation :: "citation \<Rightarrow> int \<Rightarrow> py_error + string" where
  "mla_format_citation c index =
     Inr (join '' '' (mla_authors c @ mla_title c @ mla_journal c @ mla_identifier c))"

section \<open>Metadata extraction\<close>

text \<open>
  The document handed to the field extractors is the parse tree that BeautifulSoup builds
  from the fetched page, together with the page's raw text. Of the tree, the extractors
  use only \<open>find\<close> and \<open>find_all\<close> by tag name and attribute value, \<open>tag.get\<close> and
  \<open>get_text\<close>; so the tree is kept as its tags in document order, each with its name,
  its attributes and its text. \<open>tag.get(k)\<close> is falsy for a missing and for an empty
  attribute; both read as the empty string.
\<close>

record element =
  tag_name :: string
  attrs :: "string \<rightharpoonup> string"
  inner_text :: string

type_synonym soup = "element list"

definition find_tag :: "soup \<Rightarrow> string \<Rightarrow> element option" where
  "find_tag soup name = List.find (\<lambda>e. tag_name e = name) soup"

definition find_attr :: "soup \<Rightarrow> string \<Rightarrow> string \<Rightarrow> string \<Rightarrow> element option" where
  "find_attr soup name k v = List.find (\<lambda>e. tag_name e = name \<and> attrs e k = Some v) soup"

definition find_all_attr :: "soup \<Rightarrow> string \<Rightarrow> string \<Rightarrow> string \<Rightarrow> element list" where
  "find_all_attr soup name k v = filter (\<lambda>e. tag_name e = name \<and> attrs e k = Some v) soup"

definition tag_get :: "element \<Rightarrow> string \<Rightarrow> string" where
  "tag_get e k = (case attrs e k of None \<Rightarrow> [] | Some v \<Rightarrow> v)"

text \<open>The value tested by \<open>tag and tag.get('content')\<close>; it is truthy when not empty.\<close>

definition meta_content :: "element option \<Rightarrow> string" where
  "meta_content t = (case t of None \<Rightarrow> [] | Some e \<Rightarrow> tag_get e ''content'')"

definition extract_title :: "soup \<Rightarrow> string" where
  "extract_title soup =
     (let og = meta_content (find_attr soup ''meta'' ''property'' ''og:title'') in
      if og \<noteq> [] then og
      else (let ct = meta_content (find_attr soup ''meta'' ''name'' ''citation_title'') in
        if ct \<noteq> [] then ct
        else (case find_tag soup ''title'' of
                Some title_tag \<Rightarrow> strip (inner_text title_tag)
              | None \<Rightarrow> ''Unknown Title'')))"

definition extract_authors :: "soup \<Rightarrow> string" where
  "extract_authors soup =
     (let authors = filter (\<lambda>v. v \<noteq> [])
                      (map (\<lambda>t. tag_get t ''content'')
                         (find_all_attr soup ''meta'' ''name'' ''citation_author'')) in
      if authors \<noteq> [] then join '', '' authors
      else meta_content (find_attr soup ''meta'' ''name'' ''author''))"

text \<open>
  \<open>re.search\<close> returns the leftmost match. The two year patterns have fixed length four,
  so a match at a position is decided by the four characters there and, for the pattern
  with \<open>\b\<close>, by the characters next to them: the match starts with a digit, hence \<open>\b\<close>
  before it asks for no word character in front, and \<open>\b\<close> after it for none behind.
\<close>

fun year_at :: "string \<Rightarrow> string option" where
  "year_at (a # b # c # d # _) =
     (if ((a = CHR ''2'' \<and> b = CHR ''0'') \<or> (a = CHR ''1'' \<and> b = CHR ''9''))
         \<and> is_digit c \<and> is_digit d
      then Some [a, b, c, d] else None)"
| "year_at _ = None"

text \<open>\<open>re.search(r'20\d{2}|19\d{2}', s)\<close>\<close>

fun search_year :: "string \<Rightarrow> string option" where
  "search_year [] = None"
| "search_year (c # cs) =
     (case year_at (c # cs) of Some y \<Rightarrow> Some y | None \<Rightarrow> search_year cs)"

text \<open>\<open>re.search(r'\b(20\d{2}|19\d{2})\b', s)\<close>; the first argument is the character
  before the current position, if any.\<close>

definition no_word_next :: "string \<Rightarrow> bool" where
  "no_word_next s = (case s of [] \<Rightarrow> True | c # _ \<Rightarrow> \<not> is_word c)"

fun search_year_bounded :: "char option \<Rightarrow> string \<Rightarrow> string option" where
  "search_year_bounded prev [] = None"
| "search_year_bounded prev (c # cs) =
     (if (case prev of None \<Rightarrow> True | Some p \<Rightarrow> \<not> is_word p)
         \<and> year_at (c # cs) \<noteq> None \<and> no_word_next (drop 4 (c # cs))
      then year_at (c # cs)
      else search_year_bounded (Some c) cs)"

text \<open>\<open>now_year\<close> is \<open>datetime.now().year\<close>, read from the clock by the caller.\<close>

definition year_from_text :: "string \<Rightarrow> int \<Rightarrow> string" where
  "year_from_text html_text now_year =
     (case search_year_bounded None html_text of
        Some y \<Rightarrow> y
      | None \<Rightarrow> str_int now_year)"

definition extract_year :: "soup \<Rightarrow> string \<Rightarrow> int \<Rightarrow> string" where
  "extract_year soup html_text now_year =
     (let date = meta_content (find_attr soup ''meta'' ''name'' ''citation_publication_date'') in
      if date \<noteq> [] then
        (case search_year date of
           Some y \<Rightarrow> y
         | None \<Rightarrow> year_from_text html_text now_year)
      else year_from_text html_text now_year)"

definition extract_journal :: "soup \<Rightarrow> string" where
  "extract_journal soup = meta_content (find_attr soup ''meta'' ''name'' ''citation_journal_title'')"

text \<open>
  \<open>10\.\d{4,}/[^\s]+\<close> at a position: the greedy \<open>\d{4,}\<close> takes the whole run of digits
  (giving some back cannot help, since a digit is not \<open>/\<close>), and the greedy \<open>[^\s]+\<close>
  takes everything up to the next white space.
\<close>

definition doi_at :: "string \<Rightarrow> string option" where
  "doi_at s =
     (if take 3 s = ''10.'' then
        (let ds = takeWhile is_digit (drop 3 s);
             r = dropWhile is_digit (drop 3 s) in
         if length ds \<ge> 4 \<and> take 1 r = ''/'' then
           (let suffix = takeWhile (\<lambda>c. \<not> is_space c) (drop 1 r) in
            if suffix \<noteq> [] then Some (''10.'' @ ds @ ''/'' @ suffix) else None)
         else None)
      else None)"

fun search_doi :: "string \<Rightarrow> string option" where
  "search_doi [] = None"
| "search_doi (c # cs) =
     (case doi_at (c # cs) of Some m \<Rightarrow> Some m | None \<Rightarrow> search_doi cs)"

definition extract_doi :: "soup \<Rightarrow> string \<Rightarrow> string" where
  "extract_doi soup html_text =
     (let doi = meta_content (find_attr soup ''meta'' ''name'' ''citation_doi'') in
      if doi \<noteq> [] then doi
      else (case search_doi html_text of Some m \<Rightarrow> m | None \<Rightarrow> []))"

text \<open>
  \<open>extract_from_url\<close> after the fetch: the fetch either raised, with a message, or gave a
  response, of which \<open>parsed\<close> is the parse tree of \<open>response.content\<close> and \<open>page_text\<close> is
  \<open>response.text\<close>. Any exception is raised again with the prefix.
\<close>

record response =
  parsed :: soup
  page_text :: string

definition extract_from_url :: "string \<Rightarrow> string + response \<Rightarrow> int \<Rightarrow> string + citation" where
  "extract_from_url url fetched now_year =
     (case fetched of
        Inl msg \<Rightarrow> Inl (''Failed to extract metadata: '' @ msg)
      | Inr r \<Rightarrow>
          Inr [''url'' \<mapsto> url,
               ''title'' \<mapsto> extract_title (parsed r),
               ''authors'' \<mapsto> extract_authors (parsed r),
               ''year'' \<mapsto> extract_year (parsed r) (page_text r) now_year,
               ''journal'' \<mapsto> extract_journal (parsed r),
               ''doi'' \<mapsto> extract_doi (parsed r) (page_text r),
               ''source_type'' \<mapsto> ''website''])"

section \<open>Bibliography\<close>

text \<open>
  \<open>preview_bibliography\<close> and \<open>export_bibliography\<close> of the application: the citations
  come from the database, the style from the drop-down, the file name from the dialog
  (empty when it was cancelled). What the user sees is an event; an exception that
  leaves the method is the event \<open>Raised\<close>.
\<close>

type_synonym formatter = "citation \<Rightarrow> int \<Rightarrow> py_error + string"

definition formatters :: "string \<rightharpoonup> formatter" where
  "formatters = [''Vancouver'' \<mapsto> vancouver_format_citation,
                 ''APA'' \<mapsto> apa_format_citation,
                 ''MLA'' \<mapsto> mla_format_citation]"

definition bibliography_header :: "string \<Rightarrow> string" where
  "bibliography_header style =
     ''Bibliography ('' @ style @ '' Style)'' @ [CHR 0x0A]
     @ replicate 80 CHR ''='' @ [CHR 0x0A, CHR 0x0A]"

text \<open>The loop over \<open>enumerate(citations, 1)\<close>: the text written, and the exception that
  stopped it, if any.\<close>

fun write_entries :: "formatter \<Rightarrow> int \<Rightarrow> citation list \<Rightarrow> string \<times> py_error option" where
  "write_entries f idx [] = ([], None)"
| "write_entries f idx (c # cs) =
     (case f c idx of
        Inl e \<Rightarrow> ([], Some e)
      | Inr formatted \<Rightarrow>
          (case write_entries f (idx + 1) cs of
             (rest, err) \<Rightarrow> (formatted @ [CHR 0x0A, CHR 0x0A] @ rest, err)))"

datatype event =
    ShowInfo string string
  | ExportError py_error
  | Raised py_error
  | Silent

record app =
  db_citations :: "citation list"
  style_var :: string
  preview_text :: string

definition preview_bibliography :: "app \<Rightarrow> app \<times> event" where
  "preview_bibliography a =
     (let citations = db_citations a in
      if citations = [] then
        (a, ShowInfo ''No Citations'' ''No citations to preview. Add some citations first!'')
      else
        (let style = style_var a in
         case formatters style of
           None \<Rightarrow> (a, Raised KeyError)
         | Some formatter \<Rightarrow>
             (case write_entries formatter 1 citations of
                (entries, err) \<Rightarrow>
                  (a\<lparr>preview_text := bibliography_header style @ entries\<rparr>,
                   case err of None \<Rightarrow> Silent | Some e \<Rightarrow> Raised e))))"

text \<open>The first component is the file written, as its name and content.\<close>

definition export_bibliography :: "app \<Rightarrow> string \<Rightarrow> (string \<times> string) option \<times> event" where
  "export_bibliography a filename =
     (let citations = db_citations a in
      if citations = [] then
        (None, ShowInfo ''No Citations'' ''No citations to export. Add some citations first!'')
      else
        (let style = style_var a in
         if filename = [] then (None, Silent)
         else
           (case formatters style of
              None \<Rightarrow> (None, Raised KeyError)
            | Some formatter \<Rightarrow>
                (case write_entries formatter 1 citations of
                   (entries, err) \<Rightarrow>
                     (Some (filename, bibliography_header style @ entries),
                      case err of
                        None \<Rightarrow> ShowInfo ''Success''
                                  (''Bibliography exported to:'' @ [CHR 0x0A] @ filename)
                      | Some e \<Rightarrow> ExportError e)))))"

section \<open>Formatted names\<close>

text \<open>
  The name that each author loop appends for one piece of the authors string. Every
  piece that \<open>split()\<close> returns is non-empty, so \<open>n[0]\<close> is its first character.
\<close>

definition vancouver_name :: "string \<Rightarrow> string" where
  "vancouver_name a =
     (let author = strip a; name_parts = split_ws author in
      if length name_parts \<ge> 2 then
        last name_parts @ '' '' @ map (\<lambda>n. upper (hd n)) (butlast name_parts)
      else author)"

definition apa_name :: "string \<Rightarrow> string" where
  "apa_name a =
     (let author = strip a; name_parts = split_ws author in
      if length name_parts \<ge> 2 then
        last name_parts @ '', '' @ join ''. '' (map (\<lambda>n. [upper (hd n)]) (butlast name_parts))
        @ ''.''
      else author)"

abbreviation author_list :: "citation \<Rightarrow> string list" where
  "author_list c \<equiv> split_on CHR '','' (get_str c ''authors'')"

section \<open>Patterns, stated declaratively\<close>

text \<open>
  What the three regular expressions match, stated on positions of the text rather than
  as a scan. A year token is four characters, \<open>19\<close> or \<open>20\<close> and two digits. \<open>\b\<close>
  holds at a position when exactly one of the characters before and after it is a word
  character, the ends of the text counting as no word character.
\<close>

definition year_token :: "string \<Rightarrow> bool" where
  "year_token w =
     (length w = 4 \<and> (take 2 w = ''20'' \<or> take 2 w = ''19'') \<and> list_all is_digit (drop 2 w))"

definition word_boundary :: "string \<Rightarrow> nat \<Rightarrow> bool" where
  "word_boundary s i =
     ((0 < i \<and> i \<le> length s \<and> is_word (s ! (i - 1))) \<noteq> (i < length s \<and> is_word (s ! i)))"

definition bounded_year_at :: "string \<Rightarrow> nat \<Rightarrow> bool" where
  "bounded_year_at s i =
     (word_boundary s i \<and> year_token (take 4 (drop i s)) \<and> word_boundary s (i + 4))"

text \<open>The first match in scan order: the token at the least matching position.\<close>

definition first_year_token :: "string \<Rightarrow> string option" where
  "first_year_token s =
     (case filter (\<lambda>i. year_token (take 4 (drop i s))) [0..<length s] of
        [] \<Rightarrow> None
      | i # _ \<Rightarrow> Some (take 4 (drop i s)))"

definition first_bounded_year_token :: "string \<Rightarrow> string option" where
  "first_bounded_year_token s =
     (case filter (bounded_year_at s) [0..<length s] of
        [] \<Rightarrow> None
      | i # _ \<Rightarrow> Some (take 4 (drop i s)))"

text \<open>
  A string matches \<open>10\.\d{4,}/\S+\<close> when it is \<open>10.\<close>, at least four digits, a slash
  and a non-empty rest without white space. The first match in a text is the leftmost
  one, taken up to the next white space or the end of the text.
\<close>

definition doi_pattern :: "string \<Rightarrow> bool" where
  "doi_pattern m =
     (\<exists>ds suffix. m = ''10.'' @ ds @ ''/'' @ suffix \<and> 4 \<le> length ds \<and> list_all is_digit ds
        \<and> suffix \<noteq> [] \<and> list_all (\<lambda>c. \<not> is_space c) suffix)"

definition has_doi_match :: "string \<Rightarrow> bool" where
  "has_doi_match t = (\<exists>pre m post. t = pre @ m @ post \<and> doi_pattern m)"

definition first_doi_match :: "string \<Rightarrow> string \<Rightarrow> bool" where
  "first_doi_match t m =
     (\<exists>pre post. t = pre @ m @ post \<and> doi_pattern m
        \<and> (\<forall>pre' m' post'. t = pre' @ m' @ post' \<and> doi_pattern m' \<longrightarrow> length pre \<le> length pre')
        \<and> (post = [] \<or> is_space (hd post)))"

text \<open>A parse tree whose only recognised tag is the \<open>og:title\<close> meta tag, with content
  \<open>x\<close>.\<close>

definition only_og_title :: "soup \<Rightarrow> string \<Rightarrow> bool" where
  "only_og_title soup x =
     (meta_content (find_attr soup ''meta'' ''property'' ''og:title'') = x
      \<and> list_all (\<lambda>k. find_attr soup ''meta'' ''name'' k = None)
          [''citation_title'', ''citation_author'', ''author'', ''citation_publication_date'',
           ''citation_journal_title'', ''citation_doi'']
      \<and> find_tag soup ''title'' = None)"

section \<open>The string helpers\<close>

lemma split_ws_nonempty: "w \<in> set (split_ws s) \<Longrightarrow> w \<noteq> []"
  by (induction s arbitrary: w) (auto split: if_splits list.splits)

lemma split_on_length: "length (split_on sep s) = Suc (count_list s sep)"
  by (induction s) (auto split: list.splits)

lemma split_on_not_Nil: "split_on sep s \<noteq> []"
  using split_on_length [of sep s] by auto

lemma split_on_snoc_sep: "split_on sep (s @ [sep]) = split_on sep s @ [[]]"
  by (induction s) (auto simp: split_on_not_Nil split: list.splits)

lemma map_err_Inr:
  "(\<And>x. x \<in> set xs \<Longrightarrow> f x = Inr (g x)) \<Longrightarrow> map_err f xs = Inr (map g xs)"
  by (induction xs) auto

section \<open>The author loops never raise\<close>

lemma first_upper_nonempty: "n \<noteq> [] \<Longrightarrow> first_upper n = Inr [upper (hd n)]"
  by (cases n) (auto simp: first_upper_def)

lemma initials_of_parts:
  "map_err first_upper (butlast (split_ws s))
   = Inr (map (\<lambda>n. [upper (hd n)]) (butlast (split_ws s)))"
  by (rule map_err_Inr) (auto dest!: in_set_butlastD split_ws_nonempty simp: first_upper_nonempty)

lemma concat_singletons: "concat (map (\<lambda>n. [f n]) xs) = map f xs"
  by (induction xs) auto

lemma vancouver_author_eq: "vancouver_author a = Inr (vancouver_name a)"
  by (simp add: vancouver_author_def vancouver_name_def Let_def initials_of_parts
      concat_singletons)

lemma apa_author_eq: "apa_author a = Inr (apa_name a)"
  by (simp add: apa_author_def apa_name_def Let_def initials_of_parts)

lemma vancouver_authors_eq:
  "get_str c ''authors'' \<noteq> [] \<Longrightarrow>
   vancouver_authors c =
     Inr [join '', '' (map vancouver_name (take 6 (author_list c)))
          @ (if length (author_list c) > 6 then '', et al.'' else ''.'')]"
  by (simp add: vancouver_authors_def Let_def map_err_Inr [where g = vancouver_name]
      vancouver_author_eq)

lemma apa_authors_eq:
  assumes "get_str c ''authors'' \<noteq> []"
  shows "apa_authors c =
     Inr [let names = map apa_name (take 20 (author_list c)) in
          if length (author_list c) > 20 then
            join '', '' (take 19 names) @ '', ... '' @ last names
          else if length names > 1 then
            join '', '' (butlast names) @ '', & '' @ last names
          else hd names]"
proof -
  have m: "map_err apa_author (take 20 (author_list c))
           = Inr (map apa_name (take 20 (author_list c)))"
    by (rule map_err_Inr) (simp add: apa_author_eq)
  have "map apa_name (take 20 (author_list c)) \<noteq> []"
    using split_on_not_Nil by simp
  then obtain x xs where xs: "map apa_name (take 20 (author_list c)) = x # xs"
    by (cases "map apa_name (take 20 (author_list c))") auto
  show ?thesis
    using assms
    apply (simp only: apa_authors_def Let_def m if_True sum.case xs)
    apply (simp del: last.simps butlast.simps)
    done
qed

section \<open>The year scans find the first token\<close>

lemma year_at_token:
  "year_at s = (if year_token (take 4 s) then Some (take 4 s) else None)"
proof (cases s rule: year_at.cases)
  case (1 a b c d r)
  then show ?thesis by (auto simp: year_token_def)
qed (simp_all add: year_token_def)

lemma filter_upt_Cons:
  "filter P [0..<Suc n] = (if P 0 then [0] else []) @ map Suc (filter (\<lambda>i. P (Suc i)) [0..<n])"
proof -
  have "[0..<Suc n] = 0 # map Suc [0..<n]"
    by (simp add: upt_conv_Cons map_Suc_upt del: upt_Suc)
  then show ?thesis
    by (simp add: filter_map comp_def del: upt_Suc)
qed

lemma first_year_token_Cons:
  "first_year_token (c # cs) =
     (if year_token (take 4 (c # cs)) then Some (take 4 (c # cs)) else first_year_token cs)"
  unfolding first_year_token_def
  by (simp add: filter_upt_Cons del: upt_Suc split: list.splits)

lemma search_year_first: "search_year s = first_year_token s"
proof (induction s)
  case Nil
  then show ?case by (simp add: first_year_token_def)
next
  case (Cons c cs)
  then show ?case
    by (simp only: search_year.simps first_year_token_Cons year_at_token split: if_splits) simp
qed

lemma is_digit_word: "is_digit c \<Longrightarrow> is_word c"
  by (auto simp: is_digit_def is_word_def Let_def)

lemma year_token_chars:
  "year_token w \<Longrightarrow> \<exists>a b c d. w = [a, b, c, d] \<and> (a = CHR ''2'' \<or> a = CHR ''1'') \<and> is_digit d"
  by (auto simp: year_token_def length_Suc_conv numeral_eq_Suc)

lemma year_token_word:
  assumes "year_token (take 4 (drop k s))"
  shows "k + 3 < length s" and "is_word (s ! k)" and "is_word (s ! (k + 3))"
proof -
  from year_token_chars [OF assms] obtain a b c d where
    w: "take 4 (drop k s) = [a, b, c, d]" and a: "a = CHR ''2'' \<or> a = CHR ''1''" and d: "is_digit d"
    by blast
  from w have "length (take 4 (drop k s)) = 4" by simp
  then show l: "k + 3 < length s" by auto
  have "take 4 (drop k s) ! 0 = s ! k" "take 4 (drop k s) ! 3 = s ! (k + 3)"
    using l by simp_all
  with w have "s ! k = a" "s ! (k + 3) = d" by simp_all
  with a d show "is_word (s ! k)" and "is_word (s ! (k + 3))"
    by (auto simp: is_digit_word) (auto simp: is_word_def)
qed

lemma bounded_year_at_iff:
  assumes "k < length s"
  shows "bounded_year_at s k \<longleftrightarrow>
     (case (if k = 0 then None else Some (s ! (k - 1))) of None \<Rightarrow> True | Some p \<Rightarrow> \<not> is_word p)
     \<and> year_at (drop k s) \<noteq> None \<and> no_word_next (drop 4 (drop k s))"
proof (cases "year_token (take 4 (drop k s))")
  case False
  then show ?thesis by (simp add: bounded_year_at_def year_at_token)
next
  case True
  note w = year_token_word [OF True]
  have n: "no_word_next (drop 4 (drop k s)) \<longleftrightarrow> \<not> (k + 4 < length s \<and> is_word (s ! (k + 4)))"
  proof (cases "k + 4 < length s")
    case True
    then have "drop (k + 4) s = s ! (k + 4) # drop (Suc (k + 4)) s"
      by (rule Cons_nth_drop_Suc [symmetric])
    then show ?thesis using True by (simp add: no_word_next_def add.commute)
  next
    case False
    then show ?thesis by (simp add: no_word_next_def)
  qed
  have "k + 4 - 1 = k + 3" by simp
  then have w3: "is_word (s ! (k + 4 - 1))"
    using w(3) by (simp only:)
  have b1: "word_boundary s k \<longleftrightarrow> \<not> (0 < k \<and> is_word (s ! (k - 1)))"
    using w(2) assms by (simp add: word_boundary_def)
  have b2: "word_boundary s (k + 4) \<longleftrightarrow> \<not> (k + 4 < length s \<and> is_word (s ! (k + 4)))"
    using w(1) w3 unfolding word_boundary_def by auto
  have y: "year_at (drop k s) \<noteq> None"
    using True by (simp add: year_at_token)
  show ?thesis
    unfolding bounded_year_at_def b1 b2 n using True y by auto
qed

lemma search_year_bounded_from:
  "search_year_bounded (if k = 0 then None else Some (s ! (k - 1))) (drop k s) =
     (case filter (bounded_year_at s) [k..<length s] of
        [] \<Rightarrow> None
      | i # _ \<Rightarrow> Some (take 4 (drop i s)))"
proof (induction "length s - k" arbitrary: k)
  case 0
  then show ?case by simp
next
  case (Suc n)
  then have k: "k < length s" by simp
  then have d: "drop k s = s ! k # drop (Suc k) s"
    by (simp add: Cons_nth_drop_Suc)
  have u: "[k..<length s] = k # [Suc k..<length s]"
    using k by (simp add: upt_conv_Cons)
  from Suc have "n = length s - Suc k" by simp
  from Suc.hyps(1) [OF this]
  have ih: "search_year_bounded (Some (s ! k)) (drop (Suc k) s) =
     (case filter (bounded_year_at s) [Suc k..<length s] of
        [] \<Rightarrow> None
      | i # _ \<Rightarrow> Some (take 4 (drop i s)))"
    by simp
  show ?case
  proof (cases "bounded_year_at s k")
    case True
    with bounded_year_at_iff [OF k] have c: "(case (if k = 0 then None else Some (s ! (k - 1))) of None \<Rightarrow> True | Some p \<Rightarrow> \<not> is_word p)
     \<and> year_at (drop k s) \<noteq> None \<and> no_word_next (drop 4 (drop k s))" by simp
    have "search_year_bounded (if k = 0 then None else Some (s ! (k - 1))) (s ! k # drop (Suc k) s)
       = year_at (drop k s)"
      using c unfolding d by (simp only: search_year_bounded.simps simp_thms if_True)
    also have "\<dots> = Some (take 4 (drop k s))"
      using True by (simp add: year_at_token bounded_year_at_def)
    finally show ?thesis
      using True by (simp add: u d)
  next
    case False
    with bounded_year_at_iff [OF k] have c: "\<not> ((case (if k = 0 then None else Some (s ! (k - 1))) of None \<Rightarrow> True | Some p \<Rightarrow> \<not> is_word p)
     \<and> year_at (drop k s) \<noteq> None \<and> no_word_next (drop 4 (drop k s)))" by simp
    have "search_year_bounded (if k = 0 then None else Some (s ! (k - 1))) (s ! k # drop (Suc k) s)
       = search_year_bounded (Some (s ! k)) (drop (Suc k) s)"
      using c unfolding d by (simp only: search_year_bounded.simps simp_thms if_False)
    then show ?thesis
      using False ih by (simp add: u d [symmetric])
  qed
qed

lemma search_year_bounded_first: "search_year_bounded None s = first_bounded_year_token s"
  using search_year_bounded_from [of 0 s] by (simp add: first_bounded_year_token_def)

section \<open>The DOI scan finds the first match, untrimmed\<close>

lemma digit_not_slash: "\<not> is_digit CHR ''/''"
  by (simp add: is_digit_def)

lemma doi_at_match:
  assumes "4 \<le> length ds" and "list_all is_digit ds" and "suffix \<noteq> []"
    and "list_all (\<lambda>c. \<not> is_space c) suffix"
  shows "doi_at (''10.'' @ ds @ ''/'' @ suffix @ post)
         = Some (''10.'' @ ds @ ''/'' @ suffix @ takeWhile (\<lambda>c. \<not> is_space c) post)"
proof -
  have t: "takeWhile is_digit (ds @ CHR ''/'' # suffix @ post) = ds"
    using assms(2) by (simp add: takeWhile_tail digit_not_slash list_all_iff)
  have d: "dropWhile is_digit (ds @ CHR ''/'' # suffix @ post) = CHR ''/'' # suffix @ post"
    using assms(2) by (simp add: dropWhile_append3 digit_not_slash list_all_iff)
  have s: "takeWhile (\<lambda>c. \<not> is_space c) (suffix @ post)
           = suffix @ takeWhile (\<lambda>c. \<not> is_space c) post"
    using assms(4) by (simp add: takeWhile_append2 list_all_iff)
  show ?thesis
    using assms(1,3) by (simp add: doi_at_def t d s)
qed

lemma doi_at_Some:
  assumes "doi_at s = Some m"
  shows "\<exists>post. s = m @ post \<and> doi_pattern m \<and> (post = [] \<or> is_space (hd post))"
proof -
  let ?ds = "takeWhile is_digit (drop 3 s)"
  let ?r = "dropWhile is_digit (drop 3 s)"
  let ?suffix = "takeWhile (\<lambda>c. \<not> is_space c) (drop 1 ?r)"
  let ?post = "dropWhile (\<lambda>c. \<not> is_space c) (drop 1 ?r)"
  from assms have c: "take 3 s = ''10.''" "4 \<le> length ?ds" "take 1 ?r = ''/''" "?suffix \<noteq> []"
    and m: "m = ''10.'' @ ?ds @ ''/'' @ ?suffix"
    by (auto simp: doi_at_def Let_def split: if_splits)
  have "s = take 3 s @ drop 3 s" by simp
  also have "drop 3 s = ?ds @ ?r" by simp
  also have "?r = take 1 ?r @ drop 1 ?r" by simp
  also have "drop 1 ?r = ?suffix @ ?post" by simp
  finally have "s = m @ ?post"
    unfolding c m by simp
  moreover have "doi_pattern m"
    unfolding doi_pattern_def m
    using c(2,4)
    by (intro exI [of _ ?ds] exI [of _ ?suffix]) (auto simp: list_all_iff dest: set_takeWhileD)
  moreover have "?post = [] \<or> is_space (hd ?post)"
    using hd_dropWhile [of "\<lambda>c. \<not> is_space c" "drop 1 ?r"] by auto
  ultimately show ?thesis by blast
qed

lemma doi_at_prefix_match:
  assumes "doi_pattern m"
  shows "doi_at (m @ post) \<noteq> None"
proof -
  from assms obtain ds suffix where m: "m = ''10.'' @ ds @ ''/'' @ suffix"
    and c: "4 \<le> length ds" "list_all is_digit ds" "suffix \<noteq> []"
      "list_all (\<lambda>c. \<not> is_space c) suffix"
    by (auto simp: doi_pattern_def)
  have "m @ post = ''10.'' @ ds @ ''/'' @ suffix @ post"
    by (simp add: m)
  then show ?thesis
    using doi_at_match [OF c, of post] by simp
qed

lemma doi_at_exact:
  assumes "doi_pattern m" and "post = [] \<or> is_space (hd post)"
  shows "doi_at (m @ post) = Some m"
proof -
  from assms(1) obtain ds suffix where m: "m = ''10.'' @ ds @ ''/'' @ suffix"
    and c: "4 \<le> length ds" "list_all is_digit ds" "suffix \<noteq> []"
      "list_all (\<lambda>c. \<not> is_space c) suffix"
    by (auto simp: doi_pattern_def)
  have "takeWhile (\<lambda>c. \<not> is_space c) post = []"
    using assms(2) by (cases post) auto
  moreover have "m @ post = ''10.'' @ ds @ ''/'' @ suffix @ post"
    by (simp add: m)
  ultimately show ?thesis
    using doi_at_match [OF c, of post] by (simp add: m)
qed

lemma doi_at_Nil: "doi_at [] = None"
  by (simp add: doi_at_def)

lemma search_doi_skip:
  "n \<le> length t \<Longrightarrow> (\<And>k. k < n \<Longrightarrow> doi_at (drop k t) = None)
   \<Longrightarrow> search_doi t = search_doi (drop n t)"
proof (induction n arbitrary: t)
  case 0
  then show ?case by simp
next
  case (Suc n)
  then obtain c cs where t: "t = c # cs" by (cases t) auto
  from Suc.prems(2) [of 0] have "doi_at (c # cs) = None" by (simp add: t)
  moreover have "search_doi cs = search_doi (drop n cs)"
  proof (rule Suc.IH)
    show "n \<le> length cs" using Suc.prems(1) by (simp add: t)
    fix k assume "k < n"
    then show "doi_at (drop k cs) = None"
      using Suc.prems(2) [of "Suc k"] by (simp add: t)
  qed
  ultimately show ?case by (simp add: t)
qed

lemma search_doi_Some:
  "search_doi t = Some m \<Longrightarrow>
   \<exists>pre post. t = pre @ m @ post \<and> doi_at (m @ post) = Some m
     \<and> (\<forall>k<length pre. doi_at (drop k t) = None)"
proof (induction t)
  case Nil
  then show ?case by simp
next
  case (Cons c cs)
  show ?case
  proof (cases "doi_at (c # cs)")
    case (Some m')
    with Cons.prems have m: "doi_at (c # cs) = Some m" by simp
    from doi_at_Some [OF m] obtain post where "c # cs = m @ post" by blast
    with m have "c # cs = [] @ m @ post \<and> doi_at (m @ post) = Some m
        \<and> (\<forall>k<length ([]::string). doi_at (drop k (c # cs)) = None)"
      by simp
    then show ?thesis by blast
  next
    case None
    with Cons.prems have "search_doi cs = Some m" by simp
    from Cons.IH [OF this] obtain pre post where
      p: "cs = pre @ m @ post" "doi_at (m @ post) = Some m"
        "\<forall>k<length pre. doi_at (drop k cs) = None"
      by blast
    have "\<forall>k<length (c # pre). doi_at (drop k (c # cs)) = None"
    proof (intro allI impI)
      fix k assume "k < length (c # pre)"
      then show "doi_at (drop k (c # cs)) = None"
        using None p(3) by (cases k) auto
    qed
    with p(1,2) have "c # cs = (c # pre) @ m @ post \<and> doi_at (m @ post) = Some m
        \<and> (\<forall>k<length (c # pre). doi_at (drop k (c # cs)) = None)"
      by simp
    then show ?thesis by blast
  qed
qed

lemma search_doi_None: "search_doi t = None \<Longrightarrow> doi_at (drop k t) = None"
proof (induction t arbitrary: k)
  case Nil
  then show ?case by (simp add: doi_at_Nil)
next
  case (Cons c cs)
  then show ?case
    by (cases k) (auto split: option.splits)
qed

lemma has_doi_match_iff: "has_doi_match t \<longleftrightarrow> search_doi t \<noteq> None"
proof
  assume "has_doi_match t"
  then obtain pre m post where t: "t = pre @ m @ post" and m: "doi_pattern m"
    by (auto simp: has_doi_match_def)
  have "doi_at (drop (length pre) t) \<noteq> None"
    using doi_at_prefix_match [OF m, of post] by (simp add: t)
  then show "search_doi t \<noteq> None"
    using search_doi_None [of t "length pre"] by (cases "search_doi t") simp_all
next
  assume "search_doi t \<noteq> None"
  then obtain m where "search_doi t = Some m" by auto
  from search_doi_Some [OF this] obtain pre post where
    t: "t = pre @ m @ post" and m: "doi_at (m @ post) = Some m"
    by blast
  from doi_at_Some [OF m] have "doi_pattern m" by blast
  with t show "has_doi_match t"
    unfolding has_doi_match_def by blast
qed

lemma first_doi_match_iff: "first_doi_match t m \<longleftrightarrow> search_doi t = Some m"
proof
  assume "search_doi t = Some m"
  from search_doi_Some [OF this] obtain pre post where
    t: "t = pre @ m @ post" and m: "doi_at (m @ post) = Some m"
    and l: "\<forall>k<length pre. doi_at (drop k t) = None"
    by blast
  from doi_at_Some [OF m] have p: "doi_pattern m" and b: "post = [] \<or> is_space (hd post)"
    by auto
  have "length pre \<le> length pre'" if "t = pre' @ m' @ post'" and "doi_pattern m'"
    for pre' m' post'
  proof (rule ccontr)
    assume "\<not> length pre \<le> length pre'"
    with l have "doi_at (drop (length pre') t) = None" by simp
    then show False
      using doi_at_prefix_match [OF that(2), of post'] by (simp add: that(1))
  qed
  with t p b show "first_doi_match t m"
    unfolding first_doi_match_def by blast
next
  assume "first_doi_match t m"
  then obtain pre post where t: "t = pre @ m @ post" and p: "doi_pattern m"
    and l: "\<And>pre' m' post'. t = pre' @ m' @ post' \<Longrightarrow> doi_pattern m' \<Longrightarrow> length pre \<le> length pre'"
    and b: "post = [] \<or> is_space (hd post)"
    unfolding first_doi_match_def by blast
  have m: "doi_at (m @ post) = Some m"
    by (rule doi_at_exact [OF p b])
  have n: "doi_at (drop k t) = None" if "k < length pre" for k
  proof (rule ccontr)
    assume "doi_at (drop k t) \<noteq> None"
    then obtain m' where "doi_at (drop k t) = Some m'" by auto
    from doi_at_Some [OF this] obtain post' where
      "drop k t = m' @ post'" and "doi_pattern m'"
      by blast
    have "t = take k t @ drop k t"
      by simp
    then have "t = take k t @ m' @ post'"
      by (simp only: \<open>drop k t = m' @ post'\<close>)
    from l [OF this \<open>doi_pattern m'\<close>] that t show False by simp
  qed
  have "length pre \<le> length t"
    by (simp add: t)
  then have "search_doi t = search_doi (drop (length pre) t)"
    using n by (rule search_doi_skip)
  also have "\<dots> = search_doi (m @ post)"
    by (simp add: t)
  also have "\<dots> = Some m"
    using m by (cases "m @ post") (simp_all add: doi_at_Nil)
  finally show "search_doi t = Some m" .
qed

section \<open>More on the author segments\<close>

lemma vancouver_authors_total: "\<exists>p. vancouver_authors c = Inr p"
  by (cases "get_str c ''authors'' = []")
     (simp_all add: vancouver_authors_eq, simp add: vancouver_authors_def)

lemma apa_authors_total: "\<exists>p. apa_authors c = Inr p"
  by (cases "get_str c ''authors'' = []")
     (simp_all add: apa_authors_eq, simp add: apa_authors_def)

lemma mla_authors_eq:
  "get_str c ''authors'' \<noteq> [] \<Longrightarrow>
   mla_authors c =
     [if length (author_list c) > 1
      then rstrip_dot (mla_first_author (hd (author_list c))) @ '', et al.''
      else mla_first_author (hd (author_list c))]"
  using split_on_not_Nil [of "CHR '',''" "get_str c ''authors''"]
  by (cases "author_list c") (simp_all add: mla_authors_def Let_def)

lemma apa_authors_by_commas:
  assumes "get_str c ''authors'' = a" and "a \<noteq> []"
  shows "\<exists>l. apa_authors c =
        Inr [if 20 \<le> count_list a CHR '','' then
               join '', '' (map apa_name (take 19 (author_list c))) @ '', ... '' @ l
             else if 1 \<le> count_list a CHR '','' then
               join '', '' (map apa_name (butlast (author_list c))) @ '', & ''
               @ apa_name (last (author_list c))
             else apa_name (hd (author_list c))]"
proof -
  let ?xs = "author_list c"
  have len: "length ?xs = Suc (count_list a CHR '','')"
    using assms(1) by (simp add: split_on_length)
  have ne: "get_str c ''authors'' \<noteq> []"
    using assms by simp
  have xs: "?xs \<noteq> []"
    by (rule split_on_not_Nil)
  consider "20 \<le> count_list a CHR '',''"
    | "1 \<le> count_list a CHR '',''" "count_list a CHR '','' < 20"
    | "count_list a CHR '','' = 0"
    by linarith
  then show ?thesis
  proof cases
    case 1
    then have "20 < length ?xs" using len by simp
    then show ?thesis
      using apa_authors_eq [OF ne] 1 by (simp add: Let_def take_map [symmetric] min_def)
  next
    case 2
    then have "length ?xs \<le> 20" "1 < length ?xs" using len by simp_all
    then show ?thesis
      using apa_authors_eq [OF ne] 2 xs by (simp add: Let_def last_map map_butlast)
  next
    case 3
    then have "length ?xs = 1" using len by simp
    then show ?thesis
      using apa_authors_eq [OF ne] 3 xs by (simp add: Let_def hd_map)
  qed
qed

lemma find_all_attr_None:
  "find_attr soup name k v = None \<Longrightarrow> find_all_attr soup name k v = []"
  by (simp add: find_attr_def find_all_attr_def find_None_iff filter_empty_conv)

section \<open>Claims about the formatters\<close>

text \<open>
  C3. For a record with a non-empty authors string, the Vancouver entry starts with the
  ordinal label and then the authors segment: when the string splits on the comma into
  more than 6 pieces, the segment is exactly the first 6 formatted names joined with
  \<open>", "\<close> followed by \<open>", et al."\<close>; with 6 pieces or fewer it is all the formatted
  names joined with \<open>", "\<close> followed by a period. The formatter does not raise.
\<close>

theorem vancouver_six_authors:
  assumes "get_str c ''authors'' \<noteq> []"
  shows "vancouver_format_citation c i =
           Inr (str_int i @ ''. '' @
                join '' ''
                  ((if length (author_list c) > 6
                    then join '', '' (map vancouver_name (take 6 (author_list c))) @ '', et al.''
                    else join '', '' (map vancouver_name (author_list c)) @ ''.'')
                   # vancouver_title c @ vancouver_journal c @ vancouver_identifier c))
         \<and> (length (author_list c) > 6 \<longrightarrow>
              length (map vancouver_name (take 6 (author_list c))) = 6)"
  using assms by (simp add: vancouver_format_citation_def vancouver_authors_eq)

theorem vancouver_six_authors_witness:
  "get_str [''authors'' \<mapsto> ''Ann Lee, Bo Chan, Cy Dow, Di Eng, Ed Fox, Flo Gray, Gus Hall'']
     ''authors'' \<noteq> []
   \<and> vancouver_format_citation
       [''authors'' \<mapsto> ''Ann Lee, Bo Chan, Cy Dow, Di Eng, Ed Fox, Flo Gray, Gus Hall''] 3
     = Inr ''3. Lee A, Chan B, Dow C, Eng D, Fox E, Gray F, et al.''"
proof -
  let ?c = "[''authors'' \<mapsto> ''Ann Lee, Bo Chan, Cy Dow, Di Eng, Ed Fox, Flo Gray, Gus Hall'']"
  have h: "get_str ?c ''authors'' \<noteq> []"
    by (simp add: get_str_def)
  have "vancouver_format_citation ?c 3
        = Inr ''3. Lee A, Chan B, Dow C, Eng D, Fox E, Gray F, et al.''"
    unfolding vancouver_six_authors [OF h, THEN conjunct1] by code_simp
  with h show ?thesis by (rule conjI)
qed

text \<open>
  C10. The count that decides truncation and \<open>et al.\<close> is the number of pieces of the
  authors string split on the comma, empty pieces included, that is one more than the
  number of commas. Vancouver writes \<open>", et al."\<close> from 6 commas on; APA writes the
  ellipsis from 20 commas on and \<open>", & "\<close> from one comma on; MLA writes \<open>", et al."\<close>
  from one comma on. In particular, an authors string of 6 names (5 commas) ends in a
  period in Vancouver, and the same string followed by a comma renders the same 6 names
  followed by \<open>", et al."\<close>.
\<close>

theorem author_count_includes_empty_pieces:
  assumes "get_str c ''authors'' = a" and "a \<noteq> []"
  shows "length (author_list c) = Suc (count_list a CHR '','')
    \<and> vancouver_authors c =
        Inr [join '', '' (map vancouver_name (take 6 (author_list c)))
             @ (if 6 \<le> count_list a CHR '','' then '', et al.'' else ''.'')]
    \<and> (\<exists>l. apa_authors c =
          Inr [if 20 \<le> count_list a CHR '','' then
                 join '', '' (map apa_name (take 19 (author_list c))) @ '', ... '' @ l
               else if 1 \<le> count_list a CHR '','' then
                 join '', '' (map apa_name (butlast (author_list c))) @ '', & ''
                 @ apa_name (last (author_list c))
               else apa_name (hd (author_list c))])
    \<and> mla_authors c =
        [if 1 \<le> count_list a CHR '','' then
           rstrip_dot (mla_first_author (hd (author_list c))) @ '', et al.''
         else mla_first_author (hd (author_list c))]
    \<and> (count_list a CHR '','' = 5 \<and> get_str c' ''authors'' = a @ '','' \<longrightarrow>
          vancouver_authors c = Inr [join '', '' (map vancouver_name (author_list c)) @ ''.'']
          \<and> vancouver_authors c' =
              Inr [join '', '' (map vancouver_name (author_list c)) @ '', et al.''])"
proof -
  let ?xs = "author_list c"
  have len: "length ?xs = Suc (count_list a CHR '','')"
    using assms(1) by (simp add: split_on_length)
  have ne: "get_str c ''authors'' \<noteq> []"
    using assms by simp
  have v: "vancouver_authors c =
        Inr [join '', '' (map vancouver_name (take 6 ?xs))
             @ (if 6 \<le> count_list a CHR '','' then '', et al.'' else ''.'')]"
    using vancouver_authors_eq [OF ne] len by auto
  note apa = apa_authors_by_commas [OF assms]
  have mla: "mla_authors c =
        [if 1 \<le> count_list a CHR '','' then
           rstrip_dot (mla_first_author (hd ?xs)) @ '', et al.''
         else mla_first_author (hd ?xs)]"
    using mla_authors_eq [OF ne] len by auto
  have trailing: "vancouver_authors c = Inr [join '', '' (map vancouver_name ?xs) @ ''.'']
      \<and> vancouver_authors c' = Inr [join '', '' (map vancouver_name ?xs) @ '', et al.'']"
    if "count_list a CHR '','' = 5" and c': "get_str c' ''authors'' = a @ '',''"
  proof -
    from that len have l: "length ?xs = 6" by simp
    have "author_list c' = ?xs @ [[]]"
      using c' assms(1) split_on_snoc_sep [of "CHR '',''" a] by simp
    moreover have "get_str c' ''authors'' \<noteq> []"
      using c' by simp
    ultimately have "vancouver_authors c'
        = Inr [join '', '' (map vancouver_name ?xs) @ '', et al.'']"
      using vancouver_authors_eq [of c'] l by simp
    moreover have "vancouver_authors c = Inr [join '', '' (map vancouver_name ?xs) @ ''.'']"
      using v that(1) l by simp
    ultimately show ?thesis by simp
  qed
  from len v apa mla trailing show ?thesis
    by blast
qed

theorem author_count_includes_empty_pieces_witness:
  "get_str [''authors'' \<mapsto> ''Ann Lee, Bo Chan, Cy Dow, Di Eng, Ed Fox, Flo Gray''] ''authors''
     = ''Ann Lee, Bo Chan, Cy Dow, Di Eng, Ed Fox, Flo Gray''
   \<and> ''Ann Lee, Bo Chan, Cy Dow, Di Eng, Ed Fox, Flo Gray'' \<noteq> []
   \<and> count_list ''Ann Lee, Bo Chan, Cy Dow, Di Eng, Ed Fox, Flo Gray'' CHR '','' = 5
   \<and> get_str [''authors'' \<mapsto> ''Ann Lee, Bo Chan, Cy Dow, Di Eng, Ed Fox, Flo Gray,''] ''authors''
     = ''Ann Lee, Bo Chan, Cy Dow, Di Eng, Ed Fox, Flo Gray'' @ '',''
   \<and> vancouver_authors [''authors'' \<mapsto> ''Ann Lee, Bo Chan, Cy Dow, Di Eng, Ed Fox, Flo Gray'']
     = Inr [''Lee A, Chan B, Dow C, Eng D, Fox E, Gray F.'']
   \<and> vancouver_authors [''authors'' \<mapsto> ''Ann Lee, Bo Chan, Cy Dow, Di Eng, Ed Fox, Flo Gray,'']
     = Inr [''Lee A, Chan B, Dow C, Eng D, Fox E, Gray F, et al.'']"
proof -
  let ?a = "''Ann Lee, Bo Chan, Cy Dow, Di Eng, Ed Fox, Flo Gray''"
  let ?c = "[''authors'' \<mapsto> ''Ann Lee, Bo Chan, Cy Dow, Di Eng, Ed Fox, Flo Gray'']"
  let ?c' = "[''authors'' \<mapsto> ''Ann Lee, Bo Chan, Cy Dow, Di Eng, Ed Fox, Flo Gray,'']"
  have h1: "get_str ?c ''authors'' = ?a"
    by (simp add: get_str_def)
  have h2: "?a \<noteq> []"
    by simp
  have h3: "count_list ?a CHR '','' = 5"
    by code_simp
  have h4: "get_str ?c' ''authors'' = ?a @ '',''"
    by (simp add: get_str_def)
  have n: "join '', '' (map vancouver_name (author_list ?c))
           = ''Lee A, Chan B, Dow C, Eng D, Fox E, Gray F''"
    by code_simp
  from author_count_includes_empty_pieces [OF h1 h2, of ?c'] h3 h4
  have "vancouver_authors ?c = Inr [join '', '' (map vancouver_name (author_list ?c)) @ ''.'']
      \<and> vancouver_authors ?c' =
          Inr [join '', '' (map vancouver_name (author_list ?c)) @ '', et al.'']"
    by blast
  then have "vancouver_authors ?c = Inr [''Lee A, Chan B, Dow C, Eng D, Fox E, Gray F.'']
      \<and> vancouver_authors ?c' = Inr [''Lee A, Chan B, Dow C, Eng D, Fox E, Gray F, et al.'']"
    unfolding n by simp
  with h1 h2 h3 h4 show ?thesis
    by blast
qed

text \<open>
  C9. APA and MLA ignore the ordinal: for every record and ordinals \<open>i\<close> and \<open>j\<close> each
  returns the same string, without raising. The Vancouver entry for ordinal \<open>k\<close> is the
  decimal \<open>k\<close>, then \<open>". "\<close>, then a remainder that does not depend on \<open>k\<close>.
\<close>

theorem ordinal_only_in_vancouver:
  "(\<exists>s. apa_format_citation c i = Inr s \<and> apa_format_citation c j = Inr s)
   \<and> (\<exists>s. mla_format_citation c i = Inr s \<and> mla_format_citation c j = Inr s)
   \<and> (\<exists>body. \<forall>k. vancouver_format_citation c k = Inr (str_int k @ ''. '' @ body))"
  using vancouver_authors_total [of c] apa_authors_total [of c]
  by (auto simp: apa_format_citation_def mla_format_citation_def vancouver_format_citation_def)

theorem ordinal_only_in_vancouver_witness:
  "(\<exists>s. apa_format_citation [''title'' \<mapsto> ''On Ink'', ''year'' \<mapsto> ''1999''] 1 = Inr s
        \<and> apa_format_citation [''title'' \<mapsto> ''On Ink'', ''year'' \<mapsto> ''1999''] 12 = Inr s)
   \<and> vancouver_format_citation [''title'' \<mapsto> ''On Ink'', ''year'' \<mapsto> ''1999''] 1
       = Inr ''1. On Ink. 1999.''
   \<and> vancouver_format_citation [''title'' \<mapsto> ''On Ink'', ''year'' \<mapsto> ''1999''] 12
       = Inr ''12. On Ink. 1999.''"
proof -
  let ?c = "[''title'' \<mapsto> ''On Ink'', ''year'' \<mapsto> ''1999'']"
  have "\<exists>s. apa_format_citation ?c 1 = Inr s \<and> apa_format_citation ?c 12 = Inr s"
    using ordinal_only_in_vancouver [of ?c 1 12] by (rule conjunct1)
  moreover have "vancouver_format_citation ?c 1 = Inr ''1. On Ink. 1999.''"
    by code_simp
  moreover have "vancouver_format_citation ?c 12 = Inr ''12. On Ink. 1999.''"
    by code_simp
  ultimately show ?thesis by simp
qed

text \<open>
  C2, as the code has it. For a record with empty authors, year, journal, volume, issue,
  pages, doi and url, and any ordinal: APA returns the title followed by a period, MLA
  the title followed by a period inside double quotes, and Vancouver the ordinal label
  \<open>"<ordinal>. "\<close> followed by the title and a period. When the title is empty as well,
  APA and MLA return the empty string and Vancouver returns the ordinal label alone.
  None of them raises.
\<close>

theorem title_only_record:
  assumes "get_str c ''authors'' = []" "get_str c ''year'' = []" "get_str c ''journal'' = []"
    "get_str c ''volume'' = []" "get_str c ''issue'' = []" "get_str c ''pages'' = []"
    "get_str c ''doi'' = []" "get_str c ''url'' = []"
  shows "apa_format_citation c i
           = Inr (if get_str c ''title'' = [] then [] else get_str c ''title'' @ ''.'')
         \<and> mla_format_citation c i
           = Inr (if get_str c ''title'' = [] then []
                  else ''\"'' @ get_str c ''title'' @ ''.\"'')
         \<and> vancouver_format_citation c i
           = Inr (str_int i @ ''. ''
                  @ (if get_str c ''title'' = [] then [] else get_str c ''title'' @ ''.''))"
  using assms
  by (simp add: apa_format_citation_def apa_authors_def apa_year_def apa_title_def
      apa_journal_def apa_identifier_def mla_format_citation_def mla_authors_def mla_title_def
      mla_journal_def mla_identifier_def vancouver_format_citation_def vancouver_authors_def
      vancouver_title_def vancouver_journal_def vancouver_identifier_def)

theorem title_only_record_witness:
  "get_str [''title'' \<mapsto> ''On Ink''] ''authors'' = []
   \<and> get_str [''title'' \<mapsto> ''On Ink''] ''url'' = []
   \<and> apa_format_citation [''title'' \<mapsto> ''On Ink''] 4 = Inr ''On Ink.''
   \<and> mla_format_citation [''title'' \<mapsto> ''On Ink''] 4 = Inr ''\"On Ink.\"''
   \<and> vancouver_format_citation [''title'' \<mapsto> ''On Ink''] 4 = Inr ''4. On Ink.''"
proof -
  let ?c = "[''title'' \<mapsto> ''On Ink'']"
  have h: "get_str ?c ''authors'' = []" "get_str ?c ''year'' = []" "get_str ?c ''journal'' = []"
    "get_str ?c ''volume'' = []" "get_str ?c ''issue'' = []" "get_str ?c ''pages'' = []"
    "get_str ?c ''doi'' = []" "get_str ?c ''url'' = []"
    by (simp_all add: get_str_def)
  have t: "get_str ?c ''title'' = ''On Ink''"
    by (simp add: get_str_def)
  have s: "str_int 4 = ''4''"
    by code_simp
  from title_only_record [OF h, of 4] h(1) h(8) show ?thesis
    by (simp add: t s)
qed

text \<open>
  The claim as it was stated fails for Vancouver: with every field empty the entry is the
  ordinal label, not the empty string, and with only a title the label precedes it.
\<close>

theorem vancouver_label_without_title_counterexample:
  "vancouver_format_citation Map.empty 1 = Inr ''1. ''
   \<and> vancouver_format_citation Map.empty 1 \<noteq> Inr ''''
   \<and> vancouver_format_citation [''title'' \<mapsto> ''On Ink''] 1 = Inr ''1. On Ink.''"
  by code_simp

text \<open>
  C1, at a record with 21 authors. The APA loop formats only the first 20 pieces, so the
  name written after \<open>", ... "\<close> is that of the 20th author; the last author of the full
  list, here the 21st, does not appear.
\<close>

theorem apa_over_twenty_renders_twentieth:
  "apa_format_citation
     [''authors'' \<mapsto> ''A1 B1,A2 B2,A3 B3,A4 B4,A5 B5,A6 B6,A7 B7,A8 B8,A9 B9,A10 B10,A11 B11,A12 B12,A13 B13,A14 B14,A15 B15,A16 B16,A17 B17,A18 B18,A19 B19,A20 B20,A21 B21''] 1
   = Inr ''B1, A., B2, A., B3, A., B4, A., B5, A., B6, A., B7, A., B8, A., B9, A., B10, A., B11, A., B12, A., B13, A., B14, A., B15, A., B16, A., B17, A., B18, A., B19, A., ... B20, A.''
   \<and> apa_name ''A21 B21'' = ''B21, A.''"
  by code_simp

text \<open>
  C4, at the authors string \<open>J. Smith, B. Jones\<close>. The first author is rendered as
  \<open>Smith, J..\<close>, the initial's own period and the one appended; \<open>rstrip('.')\<close> then
  removes both, so the entry reads \<open>Smith, J, et al.\<close> and not \<open>Smith, J., et al.\<close>.
\<close>

theorem mla_et_al_strips_every_trailing_period:
  "mla_first_author ''J. Smith'' = ''Smith, J..''
   \<and> mla_format_citation [''authors'' \<mapsto> ''J. Smith, B. Jones''] 1 = Inr ''Smith, J, et al.''
   \<and> mla_format_citation [''authors'' \<mapsto> ''J. Smith, B. Jones''] 1 \<noteq> Inr ''Smith, J., et al.''"
  by code_simp

section \<open>Claims about the extraction\<close>

text \<open>
  C5, as the code has it. Year extraction takes the first match in scan order of
  \<open>19dd\<close> or \<open>20dd\<close> anywhere in the \<open>citation_publication_date\<close> meta content, also
  inside a longer run of digits or letters; failing that, the first such token of the
  full page text that has a word boundary on both sides; failing that, the current
  calendar year as a string. In each scan it is the match at the least position that is
  returned, whatever comes later.
\<close>

theorem extract_year_rule_chain:
  "extract_year soup t n =
     (case first_year_token
             (meta_content (find_attr soup ''meta'' ''name'' ''citation_publication_date'')) of
        Some y \<Rightarrow> y
      | None \<Rightarrow> (case first_bounded_year_token t of Some y \<Rightarrow> y | None \<Rightarrow> str_int n))"
proof -
  have "first_year_token [] = None"
    by (simp add: first_year_token_def)
  then show ?thesis
    by (simp add: extract_year_def year_from_text_def Let_def search_year_first
        search_year_bounded_first split: option.splits)
qed

theorem extract_year_rule_chain_witness:
  "extract_year
     [\<lparr>tag_name = ''meta'',
       attrs = [''name'' \<mapsto> ''citation_publication_date'', ''content'' \<mapsto> ''2021/03/1999''],
       inner_text = ''''\<rparr>] ''In 2019 and 2020'' 2026 = ''2021''
   \<and> extract_year [] ''x1987 In 2019 and 2020'' 2026 = ''2019''"
proof -
  let ?soup = "[\<lparr>tag_name = ''meta'',
       attrs = [''name'' \<mapsto> ''citation_publication_date'', ''content'' \<mapsto> ''2021/03/1999''],
       inner_text = ''''\<rparr>]"
  have "extract_year ?soup ''In 2019 and 2020'' 2026 = ''2021''"
    unfolding extract_year_rule_chain by code_simp
  moreover have "extract_year [] ''x1987 In 2019 and 2020'' 2026 = ''2019''"
    unfolding extract_year_rule_chain by code_simp
  ultimately show ?thesis by (rule conjI)
qed

text \<open>
  The two scans are not the same one: the string \<open>v20231\<close> yields \<open>2023\<close> as meta
  content, and no year at all as page text, where the current year is returned.
\<close>

theorem year_scans_differ_counterexample:
  "extract_year [] ''v20231'' 2026 = ''2026''
   \<and> extract_year
        [\<lparr>tag_name = ''meta'',
          attrs = [''name'' \<mapsto> ''citation_publication_date'', ''content'' \<mapsto> ''v20231''],
          inner_text = ''''\<rparr>] '''' 2026 = ''2023''"
  by code_simp

text \<open>
  C6. DOI extraction returns the \<open>citation_doi\<close> meta content when it is not empty;
  otherwise the leftmost match of \<open>10\.\d{4,}/\S+\<close> in the page text, taken up to the next
  white space or the end of the text with nothing trimmed, and that match is the only
  string with these properties; otherwise the empty string. For the text
  \<open>... see 10.1000/xyz123 for details\<close> without such a meta tag the result is
  \<open>10.1000/xyz123\<close>.
\<close>

theorem extract_doi_rule_chain:
  "(meta_content (find_attr soup ''meta'' ''name'' ''citation_doi'') \<noteq> [] \<longrightarrow>
      extract_doi soup t = meta_content (find_attr soup ''meta'' ''name'' ''citation_doi''))
   \<and> (meta_content (find_attr soup ''meta'' ''name'' ''citation_doi'') = [] \<and> has_doi_match t \<longrightarrow>
        first_doi_match t (extract_doi soup t)
        \<and> (\<forall>m. first_doi_match t m \<longrightarrow> m = extract_doi soup t))
   \<and> (meta_content (find_attr soup ''meta'' ''name'' ''citation_doi'') = [] \<and> \<not> has_doi_match t \<longrightarrow>
        extract_doi soup t = [])
   \<and> (meta_content (find_attr soup ''meta'' ''name'' ''citation_doi'') = [] \<longrightarrow>
        extract_doi soup ''... see 10.1000/xyz123 for details'' = ''10.1000/xyz123'')"
proof -
  have e: "search_doi ''... see 10.1000/xyz123 for details'' = Some ''10.1000/xyz123''"
    by code_simp
  have x: "extract_doi soup ''... see 10.1000/xyz123 for details'' = ''10.1000/xyz123''"
    if "meta_content (find_attr soup ''meta'' ''name'' ''citation_doi'') = []"
    unfolding extract_doi_def Let_def e using that by simp
  have g: "extract_doi soup t = (case search_doi t of Some m \<Rightarrow> m | None \<Rightarrow> [])"
    if "meta_content (find_attr soup ''meta'' ''name'' ''citation_doi'') = []"
    using that by (simp add: extract_doi_def)
  show ?thesis
    using x by (auto simp: g has_doi_match_iff first_doi_match_iff) (simp add: extract_doi_def)
qed

theorem extract_doi_rule_chain_witness:
  "meta_content (find_attr [] ''meta'' ''name'' ''citation_doi'') = []
   \<and> has_doi_match ''doi 10.1000/xyz123. Next''
   \<and> first_doi_match ''doi 10.1000/xyz123. Next'' ''10.1000/xyz123.''
   \<and> extract_doi [] ''doi 10.1000/xyz123. Next'' = ''10.1000/xyz123.''
   \<and> extract_doi [] ''... see 10.1000/xyz123 for details'' = ''10.1000/xyz123''"
proof -
  have d: "meta_content (find_attr [] ''meta'' ''name'' ''citation_doi'') = []"
    by (simp add: meta_content_def find_attr_def)
  have p: "doi_pattern ''10.1000/xyz123.''"
    unfolding doi_pattern_def
    by (intro exI [of _ "''1000''"] exI [of _ "''xyz123.''"]) (simp add: is_digit_def is_space_def)
  have "''doi 10.1000/xyz123. Next'' = ''doi '' @ ''10.1000/xyz123.'' @ '' Next''"
    by simp
  with p have h: "has_doi_match ''doi 10.1000/xyz123. Next''"
    unfolding has_doi_match_def by blast
  have e: "extract_doi [] ''doi 10.1000/xyz123. Next'' = ''10.1000/xyz123.''"
    by code_simp
  from extract_doi_rule_chain [of "[]" "''doi 10.1000/xyz123. Next''"] d h
  have "first_doi_match ''doi 10.1000/xyz123. Next'' (extract_doi [] ''doi 10.1000/xyz123. Next'')"
    and "extract_doi [] ''... see 10.1000/xyz123 for details'' = ''10.1000/xyz123''"
    by blast+
  with d h e show ?thesis by simp
qed

text \<open>
  C7, as the code has it. From a document whose only recognised tag is the \<open>og:title\<close>
  meta tag with a non-empty content \<open>x\<close>, extraction yields the title \<open>x\<close>, empty authors
  and journal, and the source type \<open>website\<close>. The year and the DOI are still scanned
  for in the raw page text, which holds the markup and \<open>x\<close> itself: the year is the
  first word-bounded \<open>19dd\<close> or \<open>20dd\<close> token of the text, and the current year only
  when there is none; the DOI is the first match of the DOI pattern in the text, and empty
  only when there is none.
\<close>

theorem og_title_only_extraction:
  assumes "only_og_title soup x" and "x \<noteq> []"
  shows "extract_from_url url (Inr \<lparr>parsed = soup, page_text = t\<rparr>) n =
           Inr [''url'' \<mapsto> url,
                ''title'' \<mapsto> x,
                ''authors'' \<mapsto> [],
                ''year'' \<mapsto> (case first_bounded_year_token t of
                               Some y \<Rightarrow> y | None \<Rightarrow> str_int n),
                ''journal'' \<mapsto> [],
                ''doi'' \<mapsto> (case search_doi t of Some m \<Rightarrow> m | None \<Rightarrow> []),
                ''source_type'' \<mapsto> ''website'']
         \<and> (search_doi t = None \<longleftrightarrow> \<not> has_doi_match t)
         \<and> (\<forall>m. search_doi t = Some m \<longleftrightarrow> first_doi_match t m)"
proof -
  from assms have og: "meta_content (find_attr soup ''meta'' ''property'' ''og:title'') = x"
    and n: "find_attr soup ''meta'' ''name'' ''citation_author'' = None"
      "find_attr soup ''meta'' ''name'' ''author'' = None"
      "find_attr soup ''meta'' ''name'' ''citation_publication_date'' = None"
      "find_attr soup ''meta'' ''name'' ''citation_journal_title'' = None"
      "find_attr soup ''meta'' ''name'' ''citation_doi'' = None"
    by (simp_all add: only_og_title_def)
  have title: "extract_title soup = x"
    using og assms(2) by (simp add: extract_title_def)
  have authors: "extract_authors soup = []"
    by (simp add: extract_authors_def find_all_attr_None [OF n(1)] n(2) meta_content_def)
  have year: "extract_year soup t n =
      (case first_bounded_year_token t of Some y \<Rightarrow> y | None \<Rightarrow> str_int n)"
    by (simp add: extract_year_def n(3) meta_content_def year_from_text_def
        search_year_bounded_first)
  have journal: "extract_journal soup = []"
    by (simp add: extract_journal_def n(4) meta_content_def)
  have doi: "extract_doi soup t = (case search_doi t of Some m \<Rightarrow> m | None \<Rightarrow> [])"
    by (simp add: extract_doi_def n(5) meta_content_def)
  show ?thesis
    by (simp add: extract_from_url_def title authors year journal doi has_doi_match_iff
        first_doi_match_iff)
qed

theorem og_title_only_extraction_witness:
  "only_og_title [\<lparr>tag_name = ''meta'',
                    attrs = [''property'' \<mapsto> ''og:title'', ''content'' \<mapsto> ''X''],
                    inner_text = ''''\<rparr>] ''X''
   \<and> ''X'' \<noteq> []
   \<and> extract_from_url ''http://example.org''
        (Inr \<lparr>parsed = [\<lparr>tag_name = ''meta'',
                          attrs = [''property'' \<mapsto> ''og:title'', ''content'' \<mapsto> ''X''],
                          inner_text = ''''\<rparr>],
               page_text = ''<meta property=\"og:title\" content=\"X\">''\<rparr>) 2026
     = Inr [''url'' \<mapsto> ''http://example.org'',
            ''title'' \<mapsto> ''X'',
            ''authors'' \<mapsto> [],
            ''year'' \<mapsto> ''2026'',
            ''journal'' \<mapsto> [],
            ''doi'' \<mapsto> [],
            ''source_type'' \<mapsto> ''website'']"
proof -
  let ?soup = "[\<lparr>tag_name = ''meta'',
                    attrs = [''property'' \<mapsto> ''og:title'', ''content'' \<mapsto> ''X''],
                    inner_text = ''''\<rparr>]"
  have h: "only_og_title ?soup ''X''"
    by (simp add: only_og_title_def meta_content_def find_attr_def find_tag_def tag_get_def)
  have x: "''X'' \<noteq> []"
    by simp
  have y: "(case first_bounded_year_token ''<meta property=\"og:title\" content=\"X\">'' of
              Some y \<Rightarrow> y | None \<Rightarrow> str_int 2026) = ''2026''"
    by code_simp
  have d: "(case search_doi ''<meta property=\"og:title\" content=\"X\">'' of
              Some m \<Rightarrow> m | None \<Rightarrow> []) = []"
    by code_simp
  from og_title_only_extraction [OF h x, of "''http://example.org''"
      "''<meta property=\"og:title\" content=\"X\">''" 2026]
  have "extract_from_url ''http://example.org''
        (Inr \<lparr>parsed = ?soup, page_text = ''<meta property=\"og:title\" content=\"X\">''\<rparr>) 2026
     = Inr [''url'' \<mapsto> ''http://example.org'',
            ''title'' \<mapsto> ''X'',
            ''authors'' \<mapsto> [],
            ''year'' \<mapsto> ''2026'',
            ''journal'' \<mapsto> [],
            ''doi'' \<mapsto> [],
            ''source_type'' \<mapsto> ''website'']"
    unfolding y d by (rule conjunct1)
  with h x show ?thesis by blast
qed

text \<open>
  With a year in the title the extracted year is that one and not the current year; with
  a DOI in the title the extracted DOI is not empty, and takes the closing quote and
  bracket of the tag with it; with an empty content the title is \<open>Unknown Title\<close>.
\<close>

theorem og_title_year_from_markup_counterexample:
  "(case extract_from_url ''http://example.org''
           (Inr \<lparr>parsed = [\<lparr>tag_name = ''meta'',
                             attrs = [''property'' \<mapsto> ''og:title'', ''content'' \<mapsto> ''Review of 2020''],
                             inner_text = ''''\<rparr>],
                  page_text = ''<meta property=\"og:title\" content=\"Review of 2020\">''\<rparr>) 2026 of
      Inl e \<Rightarrow> None
    | Inr c \<Rightarrow> c ''year'') = Some ''2020''
   \<and> str_int 2026 = ''2026''
   \<and> (case extract_from_url ''http://example.org''
           (Inr \<lparr>parsed = [\<lparr>tag_name = ''meta'',
                             attrs = [''property'' \<mapsto> ''og:title'', ''content'' \<mapsto> ''doi 10.1000/ab''],
                             inner_text = ''''\<rparr>],
                  page_text = ''<meta property=\"og:title\" content=\"doi 10.1000/ab\">''\<rparr>) 2026 of
      Inl e \<Rightarrow> None
    | Inr c \<Rightarrow> c ''doi'') = Some ''10.1000/ab\">''
   \<and> (case extract_from_url ''http://example.org''
           (Inr \<lparr>parsed = [\<lparr>tag_name = ''meta'',
                             attrs = [''property'' \<mapsto> ''og:title'', ''content'' \<mapsto> ''''],
                             inner_text = ''''\<rparr>],
                  page_text = ''<meta property=\"og:title\" content=\"\">''\<rparr>) 2026 of
      Inl e \<Rightarrow> None
    | Inr c \<Rightarrow> c ''title'') = Some ''Unknown Title''"
  by code_simp

section \<open>Claims about the bibliography\<close>

text \<open>
  C8, as the code has it. With no citations, preview and export each show the
  \<open>No Citations\<close> notice and return before anything is written: the preview text is
  left as it was, no file is written, and no header appears. Neither raises.
\<close>

theorem empty_bibliography_short_circuits:
  assumes "db_citations a = []"
  shows "preview_bibliography a
           = (a, ShowInfo ''No Citations'' ''No citations to preview. Add some citations first!'')
         \<and> export_bibliography a filename
           = (None, ShowInfo ''No Citations'' ''No citations to export. Add some citations first!'')"
  using assms by (simp add: preview_bibliography_def export_bibliography_def)

theorem empty_bibliography_short_circuits_witness:
  "db_citations \<lparr>db_citations = [], style_var = ''MLA'', preview_text = ''old''\<rparr> = []
   \<and> preview_text (fst (preview_bibliography
        \<lparr>db_citations = [], style_var = ''MLA'', preview_text = ''old''\<rparr>)) = ''old''
   \<and> fst (export_bibliography
        \<lparr>db_citations = [], style_var = ''MLA'', preview_text = ''old''\<rparr> ''out.txt'') = None"
proof -
  let ?a = "\<lparr>db_citations = [], style_var = ''MLA'', preview_text = ''old''\<rparr>"
  have h: "db_citations ?a = []" by simp
  from empty_bibliography_short_circuits [OF h, of "''out.txt''"] h show ?thesis
    by simp
qed

text \<open>
  The two-line header alone is never the outcome for an empty collection.
\<close>

theorem empty_bibliography_no_header_counterexample:
  "preview_bibliography \<lparr>db_citations = [], style_var = ''APA'', preview_text = ''''\<rparr>
     = (\<lparr>db_citations = [], style_var = ''APA'', preview_text = ''''\<rparr>,
        ShowInfo ''No Citations'' ''No citations to preview. Add some citations first!'')
   \<and> export_bibliography \<lparr>db_citations = [], style_var = ''APA'', preview_text = ''''\<rparr>
        ''bibliography_apa.txt''
     = (None, ShowInfo ''No Citations'' ''No citations to export. Add some citations first!'')
   \<and> bibliography_header ''APA'' \<noteq> ''''"
  by (simp add: preview_bibliography_def export_bibliography_def bibliography_header_def)

end
